theory Spec2Isabelle
  imports Main "HOL-Library.Sublist"
begin

section \<open>The output fixture \<open>pythrun-test.py\<close>\<close>

text \<open>
  The program is one function \<open>main\<close>: four blocks of timed writes to the two output
  streams, then \<open>sys.exit(42)\<close>. The model is a state-passing embedding: the state is
  the list of effects the process has performed so far, in program order, and every
  call that can raise returns a sum whose left injection is the exception.
\<close>

subsection \<open>Streams, effects and exceptions\<close>

datatype channel = Stdout | Stderr

text \<open>
  One constructor for each kind of call the source makes:
  \<^item> \<open>Print ch s\<close>: \<open>print(s, file=ch)\<close>, which writes \<open>s\<close> followed by a newline;
  \<^item> \<open>Write ch s\<close>: \<open>ch.write(s)\<close>, which writes \<open>s\<close> and nothing else;
  \<^item> \<open>Flush ch\<close>: \<open>ch.flush()\<close>;
  \<^item> \<open>Sleep ms\<close>: \<open>time.sleep\<close>, with the duration in milliseconds
    (\<open>0.2\<close>, \<open>0.1\<close> and \<open>0.05\<close> seconds are 200, 100 and 50).
\<close>

datatype event =
    Print channel string
  | Write channel string
  | Flush channel
  | Sleep nat

text \<open>
  The two exceptions of a run: \<open>sys.exit(n)\<close> raises \<open>SystemExit\<close>, and a call on a
  stream that cannot take the data raises \<open>OSError\<close> (a broken pipe, a closed
  descriptor). The source catches neither.
\<close>

datatype exn = SystemExit int | OSError channel

type_synonym trace = "event list"

type_synonym 'a prog = "trace \<Rightarrow> (exn + 'a) \<times> trace"

text \<open>
  The streams belong to the parent process. \<open>w ch t\<close> tells whether stream \<open>ch\<close>
  accepts a call when the process has performed \<open>t\<close> effects.
\<close>

type_synonym streams = "channel \<Rightarrow> nat \<Rightarrow> bool"

definition return :: "'a \<Rightarrow> 'a prog" where
  "return x tr = (Inr x, tr)"

definition bind :: "'a prog \<Rightarrow> ('a \<Rightarrow> 'b prog) \<Rightarrow> 'b prog" where
  "bind m f tr = (case m tr of
      (Inl e, tr') \<Rightarrow> (Inl e, tr')
    | (Inr x, tr') \<Rightarrow> f x tr')"

definition next_do :: "unit prog \<Rightarrow> unit prog \<Rightarrow> unit prog" where
  "next_do m k = bind m (\<lambda>_. k)"

definition raise :: "exn \<Rightarrow> 'a prog" where
  "raise e tr = (Inl e, tr)"

text \<open>A call on a stream: performed when the stream accepts it, \<open>OSError\<close> otherwise.\<close>

definition io :: "streams \<Rightarrow> channel \<Rightarrow> event \<Rightarrow> unit prog" where
  "io w ch e tr = (if w ch (length tr) then (Inr (), tr @ [e]) else (Inl (OSError ch), tr))"

definition print_py :: "streams \<Rightarrow> channel \<Rightarrow> string \<Rightarrow> unit prog" where
  "print_py w ch s = io w ch (Print ch s)"

definition write_py :: "streams \<Rightarrow> channel \<Rightarrow> string \<Rightarrow> unit prog" where
  "write_py w ch s = io w ch (Write ch s)"

definition flush :: "streams \<Rightarrow> channel \<Rightarrow> unit prog" where
  "flush w ch = io w ch (Flush ch)"

definition sleep :: "nat \<Rightarrow> unit prog" where
  "sleep ms tr = (Inr (), tr @ [Sleep ms])"

definition sys_exit :: "int \<Rightarrow> 'a prog" where
  "sys_exit n = raise (SystemExit n)"

text \<open>\<open>for x in xs: body\<close>. An exception in the body leaves the loop.\<close>

fun for_each :: "'a list \<Rightarrow> ('a \<Rightarrow> unit prog) \<Rightarrow> unit prog" where
  "for_each [] body = return ()"
| "for_each (x # xs) body = next_do (body x) (for_each xs body)"

subsection \<open>The built-ins the source uses\<close>

text \<open>\<open>range(a, b)\<close>: the integers from \<open>a\<close> up to \<open>b - 1\<close>.\<close>

definition range_py :: "int \<Rightarrow> int \<Rightarrow> int list" where
  "range_py a b = [a..b - 1]"

text \<open>\<open>str\<close> of an integer, which is what \<open>{i}\<close> in an f-string inserts: decimal digits,
  most significant first, a minus sign for a negative number.\<close>

definition digit_char :: "nat \<Rightarrow> char" where
  "digit_char d = char_of (48 + d)"

function str_nat :: "nat \<Rightarrow> string" where
  "str_nat n = (if n < 10 then [digit_char n] else str_nat (n div 10) @ [digit_char (n mod 10)])"
  by pat_completeness auto
termination
  by (relation "measure id") auto

definition str_int :: "int \<Rightarrow> string" where
  "str_int i = (if i < 0 then CHR ''-'' # str_nat (nat (- i)) else str_nat (nat i))"

text \<open>Iterating over a string yields its characters, each a string of length one.\<close>

definition chars :: "string \<Rightarrow> string list" where
  "chars s = map (\<lambda>c. [c]) s"

subsection \<open>The program\<close>

definition main :: "streams \<Rightarrow> unit prog" where
  "main w =
    next_do (print_py w Stdout ''Expected: 5 lines of stdout - 1st set'')
   (next_do (for_each (range_py 1 6) (\<lambda>i.
      next_do (print_py w Stdout (''stdout: Line '' @ str_int i))
              (sleep 200)))
   (next_do (print_py w Stderr ''Expected: 5 lines of stderr - 2nd set'')
   (next_do (for_each (range_py 1 6) (\<lambda>i.
      next_do (print_py w Stderr (''stderr: Line '' @ str_int i))
              (sleep 200)))
   (next_do (print_py w Stdout ''Expected: 5 interleaved lines of stdout and stderr - 3rd set'')
   (next_do (for_each (range_py 1 6) (\<lambda>i.
      next_do (print_py w Stdout (''stdout: Interleaved Line '' @ str_int i))
     (next_do (print_py w Stderr (''stderr: Interleaved Line '' @ str_int i))
              (sleep 100))))
   (next_do (print_py w Stdout ''Expected: Character by character output with pauses - 4th set'')
   (next_do (for_each (chars ''stdout: Character output\<newline>'') (\<lambda>char.
      next_do (write_py w Stdout char)
     (next_do (flush w Stdout)
              (sleep 50))))
   (next_do (for_each (chars ''stderr: Character output\<newline>'') (\<lambda>char.
      next_do (write_py w Stderr char)
     (next_do (flush w Stderr)
              (sleep 50))))
   (next_do (print_py w Stdout ''Exiting with code 42'')
            (sys_exit 42))))))))))"

text \<open>
  The module's last two lines call \<open>main()\<close> on a fresh process. The interpreter turns
  the exception that ends it into the exit status: the argument of \<open>SystemExit\<close>, or 1
  for any other uncaught exception; a \<open>main\<close> that returned would give 0.
  The report of an uncaught exception that the interpreter itself prints is no effect
  of \<open>main\<close> and is left out of the trace. So is the flush of both streams at
  shutdown: \<open>status\<close> is the status the exception asks for, which the process returns
  when that flush succeeds, as it does when both streams take every call; when it
  fails the interpreter returns 120 instead.
  What the process is started with (arguments, environment variables, pending input) is
  there to be read, and \<open>main\<close> takes none of it.
\<close>

record invocation =
  argv :: "string list"
  environ :: "(string \<times> string) list"
  stdin :: string
  writable :: streams

record outcome =
  status :: int
  events :: trace

definition run :: "invocation \<Rightarrow> outcome" where
  "run proc = (case main (writable proc) [] of
      (Inl (SystemExit n), tr) \<Rightarrow> \<lparr>status = n, events = tr\<rparr>
    | (Inl (OSError ch), tr) \<Rightarrow> \<lparr>status = 1, events = tr\<rparr>
    | (Inr u, tr) \<Rightarrow> \<lparr>status = 0, events = tr\<rparr>)"

subsection \<open>What an observer of a run sees\<close>

text \<open>The stream a call is made on; \<open>time.sleep\<close> touches none.\<close>

fun chan :: "event \<Rightarrow> channel option" where
  "chan (Print ch s) = Some ch"
| "chan (Write ch s) = Some ch"
| "chan (Flush ch) = Some ch"
| "chan (Sleep n) = None"

text \<open>The characters an effect puts on a stream, and the text a stream has received.\<close>

fun bytes_on :: "channel \<Rightarrow> event \<Rightarrow> string" where
  "bytes_on ch (Print c s) = (if c = ch then s @ ''\<newline>'' else [])"
| "bytes_on ch (Write c s) = (if c = ch then s else [])"
| "bytes_on ch (Flush c) = []"
| "bytes_on ch (Sleep n) = []"

definition content :: "channel \<Rightarrow> trace \<Rightarrow> string" where
  "content ch tr = concat (map (bytes_on ch) tr)"

text \<open>The calls that put text on a stream, in the order they were made.\<close>

fun writes_to :: "channel \<Rightarrow> event \<Rightarrow> bool" where
  "writes_to ch (Print c s) = (c = ch)"
| "writes_to ch (Write c s) = (c = ch)"
| "writes_to ch (Flush c) = False"
| "writes_to ch (Sleep n) = False"

definition emissions :: "channel \<Rightarrow> trace \<Rightarrow> trace" where
  "emissions ch tr = filter (writes_to ch) tr"

text \<open>The text of the \<open>write\<close> calls alone, the \<open>print\<close> calls left out.\<close>

fun write_text :: "channel \<Rightarrow> event \<Rightarrow> string" where
  "write_text ch (Write c s) = (if c = ch then s else [])"
| "write_text ch e = []"

fun is_write :: "event \<Rightarrow> bool" where
  "is_write (Write c s) = True"
| "is_write e = False"

fun is_print :: "event \<Rightarrow> bool" where
  "is_print (Print c s) = True"
| "is_print e = False"

definition unlines :: "string list \<Rightarrow> string" where
  "unlines ls = concat (map (\<lambda>l. l @ ''\<newline>'') ls)"

text \<open>A line is counted when its newline arrives.\<close>

definition line_count :: "channel \<Rightarrow> trace \<Rightarrow> nat" where
  "line_count ch tr = count_list (content ch tr) CHR ''\<newline>''"

definition total_lines :: "trace \<Rightarrow> nat" where
  "total_lines tr = line_count Stdout tr + line_count Stderr tr"

text \<open>The indices at which \<open>e\<close> occurs in a list, counted from \<open>n\<close>.\<close>

fun positions_from :: "nat \<Rightarrow> 'a \<Rightarrow> 'a list \<Rightarrow> nat list" where
  "positions_from n e [] = []"
| "positions_from n e (x # xs) =
     (if x = e then n # positions_from (Suc n) e xs else positions_from (Suc n) e xs)"

text \<open>Every \<open>write\<close> in the list passes a single character and is followed at once by
  a \<open>flush\<close> of the same stream.\<close>

fun flushed :: "trace \<Rightarrow> bool" where
  "flushed [] = True"
| "flushed (Write ch s # es) =
     (length s = 1 \<and> (case es of Flush c # _ \<Rightarrow> c = ch | _ \<Rightarrow> False) \<and> flushed es)"
| "flushed (e # es) = flushed es"

text \<open>Counting from \<open>n\<close>, every \<open>write\<close> to standard output stands before index \<open>m\<close>
  and every \<open>write\<close> to standard error at \<open>m\<close> or later.\<close>

fun split_at :: "nat \<Rightarrow> nat \<Rightarrow> trace \<Rightarrow> bool" where
  "split_at m n [] = True"
| "split_at m n (Write ch s # es) =
     ((if ch = Stdout then n < m else m \<le> n) \<and> split_at m (Suc n) es)"
| "split_at m n (e # es) = split_at m (Suc n) es"

subsection \<open>Kinds of runs\<close>

text \<open>Both streams take every call, whenever it comes.\<close>

definition streams_writable :: "streams \<Rightarrow> bool" where
  "streams_writable w \<longleftrightarrow> (\<forall>ch t. w ch t)"

text \<open>A run is complete when it reaches \<open>sys.exit(42)\<close>.\<close>

definition complete :: "invocation \<Rightarrow> bool" where
  "complete proc \<longleftrightarrow> fst (main (writable proc) []) = Inl (SystemExit 42)"

text \<open>Two parents: one that reads both streams to the end, one that has closed
  its end of standard error, so that every call on that stream fails.\<close>

definition all_open :: invocation where
  "all_open = \<lparr>argv = [], environ = [], stdin = [], writable = (\<lambda>ch t. True)\<rparr>"

definition stderr_closed :: invocation where
  "stderr_closed = \<lparr>argv = [], environ = [], stdin = [], writable = (\<lambda>ch t. ch = Stdout)\<rparr>"


subsection \<open>The effects of a complete run, block by block\<close>

definition phase1 :: trace where
  "phase1 = Print Stdout ''Expected: 5 lines of stdout - 1st set'' #
     concat (map (\<lambda>i. [Print Stdout (''stdout: Line '' @ str_int i), Sleep 200])
       [1, 2, 3, 4, 5])"

definition phase2 :: trace where
  "phase2 = Print Stderr ''Expected: 5 lines of stderr - 2nd set'' #
     concat (map (\<lambda>i. [Print Stderr (''stderr: Line '' @ str_int i), Sleep 200])
       [1, 2, 3, 4, 5])"

definition phase3 :: trace where
  "phase3 = Print Stdout ''Expected: 5 interleaved lines of stdout and stderr - 3rd set'' #
     concat (map (\<lambda>i. [Print Stdout (''stdout: Interleaved Line '' @ str_int i),
                         Print Stderr (''stderr: Interleaved Line '' @ str_int i),
                         Sleep 100])
       [1, 2, 3, 4, 5])"

definition char_by_char :: "channel \<Rightarrow> string \<Rightarrow> trace" where
  "char_by_char ch s = concat (map (\<lambda>c. [Write ch c, Flush ch, Sleep 50]) (chars s))"

definition phase4 :: trace where
  "phase4 = Print Stdout ''Expected: Character by character output with pauses - 4th set'' #
     char_by_char Stdout ''stdout: Character output\<newline>'' @
     char_by_char Stderr ''stderr: Character output\<newline>''"

definition script :: trace where
  "script = phase1 @ phase2 @ phase3 @ phase4 @ [Print Stdout ''Exiting with code 42'']"

text \<open>
  \<open>emits w p es r\<close>: started after any trace, \<open>p\<close> either performs the effects \<open>es\<close>
  and ends with \<open>r\<close>, or stops with \<open>OSError\<close> in front of the first call of \<open>es\<close>
  that its stream refuses, having performed the effects before it.
\<close>

definition emits :: "streams \<Rightarrow> unit prog \<Rightarrow> trace \<Rightarrow> exn + unit \<Rightarrow> bool" where
  "emits w p es r \<longleftrightarrow> (\<forall>tr.
      p tr = (r, tr @ es) \<or>
      (\<exists>pre e post ch. es = pre @ e # post \<and> chan e = Some ch \<and>
          \<not> w ch (length tr + length pre) \<and> p tr = (Inl (OSError ch), tr @ pre)))"





subsection \<open>The program with each string of the fourth block written at once\<close>

text \<open>
  The reference program of the refinement: \<open>main\<close> with each of its two character
  loops replaced by one \<open>write\<close> of the whole string, and everything else unchanged.
\<close>

definition main_whole_writes :: "streams \<Rightarrow> unit prog" where
  "main_whole_writes w =
    next_do (print_py w Stdout ''Expected: 5 lines of stdout - 1st set'')
   (next_do (for_each (range_py 1 6) (\<lambda>i.
      next_do (print_py w Stdout (''stdout: Line '' @ str_int i))
              (sleep 200)))
   (next_do (print_py w Stderr ''Expected: 5 lines of stderr - 2nd set'')
   (next_do (for_each (range_py 1 6) (\<lambda>i.
      next_do (print_py w Stderr (''stderr: Line '' @ str_int i))
              (sleep 200)))
   (next_do (print_py w Stdout ''Expected: 5 interleaved lines of stdout and stderr - 3rd set'')
   (next_do (for_each (range_py 1 6) (\<lambda>i.
      next_do (print_py w Stdout (''stdout: Interleaved Line '' @ str_int i))
     (next_do (print_py w Stderr (''stderr: Interleaved Line '' @ str_int i))
              (sleep 100))))
   (next_do (print_py w Stdout ''Expected: Character by character output with pauses - 4th set'')
   (next_do (write_py w Stdout ''stdout: Character output\<newline>'')
   (next_do (write_py w Stderr ''stderr: Character output\<newline>'')
   (next_do (print_py w Stdout ''Exiting with code 42'')
            (sys_exit 42))))))))))"

definition script_whole_writes :: trace where
  "script_whole_writes = phase1 @ phase2 @ phase3 @
     [Print Stdout ''Expected: Character by character output with pauses - 4th set'',
      Write Stdout ''stdout: Character output\<newline>'',
      Write Stderr ''stderr: Character output\<newline>'',
      Print Stdout ''Exiting with code 42'']"

subsection \<open>The text the streams are expected to receive\<close>

definition stdout_lines :: "string list" where
  "stdout_lines =
    [''Expected: 5 lines of stdout - 1st set'',
     ''stdout: Line 1'', ''stdout: Line 2'', ''stdout: Line 3'', ''stdout: Line 4'',
     ''stdout: Line 5'',
     ''Expected: 5 interleaved lines of stdout and stderr - 3rd set'',
     ''stdout: Interleaved Line 1'', ''stdout: Interleaved Line 2'',
     ''stdout: Interleaved Line 3'', ''stdout: Interleaved Line 4'',
     ''stdout: Interleaved Line 5'',
     ''Expected: Character by character output with pauses - 4th set'',
     ''stdout: Character output'',
     ''Exiting with code 42'']"

text \<open>The first thirteen lines come from \<open>print\<close>, the fourteenth character by character.\<close>

definition stdout_emissions :: trace where
  "stdout_emissions =
     map (Print Stdout) (take 13 stdout_lines) @
     map (\<lambda>c. Write Stdout [c]) ''stdout: Character output\<newline>'' @
     [Print Stdout ''Exiting with code 42'']"

definition stderr_lines :: "string list" where
  "stderr_lines =
    [''Expected: 5 lines of stderr - 2nd set'',
     ''stderr: Line 1'', ''stderr: Line 2'', ''stderr: Line 3'', ''stderr: Line 4'',
     ''stderr: Line 5'',
     ''stderr: Interleaved Line 1'', ''stderr: Interleaved Line 2'',
     ''stderr: Interleaved Line 3'', ''stderr: Interleaved Line 4'',
     ''stderr: Interleaved Line 5'',
     ''stderr: Character output'']"

definition stderr_emissions :: trace where
  "stderr_emissions =
     map (Print Stderr) (take 11 stderr_lines) @
     map (\<lambda>c. Write Stderr [c]) ''stderr: Character output\<newline>''"

text \<open>In \<open>xs\<close>, the two lines of iteration \<open>i\<close> of the third block stand at \<open>n\<close> and
  \<open>n + 1\<close> and nowhere else, and the pause of 100 ms at \<open>n + 2\<close>.\<close>

definition interleaved_at :: "trace \<Rightarrow> int \<Rightarrow> nat \<Rightarrow> bool" where
  "interleaved_at xs i n \<longleftrightarrow>
     positions_from 0 (Print Stdout (''stdout: Interleaved Line '' @ str_int i)) xs = [n]
   \<and> positions_from 0 (Print Stderr (''stderr: Interleaved Line '' @ str_int i)) xs = [Suc n]
   \<and> Suc (Suc n) < length xs
   \<and> xs ! Suc (Suc n) = Sleep 100"

section \<open>Properties\<close>

subsection \<open>Built-ins\<close>

lemma range_1_6: "range_py 1 6 = [1, 2, 3, 4, 5]"
  unfolding range_py_def by code_simp

subsection \<open>Composing the effects of calls\<close>

lemma emits_io: "chan e = Some ch \<Longrightarrow> emits w (io w ch e) [e] (Inr ())"
  unfolding emits_def io_def
  by (intro allI) (auto intro: exI [of _ "[]"])

lemma emits_print: "emits w (print_py w ch s) [Print ch s] (Inr ())"
  by (simp add: print_py_def emits_io)

lemma emits_write: "emits w (write_py w ch s) [Write ch s] (Inr ())"
  by (simp add: write_py_def emits_io)

lemma emits_flush: "emits w (flush w ch) [Flush ch] (Inr ())"
  by (simp add: flush_def emits_io)

lemma emits_sleep: "emits w (sleep n) [Sleep n] (Inr ())"
  by (simp add: emits_def sleep_def)

lemma emits_return: "emits w (return ()) [] (Inr ())"
  by (simp add: emits_def return_def)

lemma emits_raise: "emits w (raise e) [] (Inl e)"
  by (simp add: emits_def raise_def)

lemma emits_next:
  assumes p: "emits w p es (Inr ())" and q: "emits w q fs r"
  shows "emits w (next_do p q) (es @ fs) r"
  unfolding emits_def
proof
  fix tr
  from p have "p tr = (Inr (), tr @ es) \<or>
      (\<exists>pre e post ch. es = pre @ e # post \<and> chan e = Some ch \<and>
          \<not> w ch (length tr + length pre) \<and> p tr = (Inl (OSError ch), tr @ pre))"
    by (simp add: emits_def)
  then show "next_do p q tr = (r, tr @ es @ fs) \<or>
      (\<exists>pre e post ch. es @ fs = pre @ e # post \<and> chan e = Some ch \<and>
          \<not> w ch (length tr + length pre) \<and> next_do p q tr = (Inl (OSError ch), tr @ pre))"
  proof
    assume ok: "p tr = (Inr (), tr @ es)"
    from q have "q (tr @ es) = (r, (tr @ es) @ fs) \<or>
      (\<exists>pre e post ch. fs = pre @ e # post \<and> chan e = Some ch \<and>
          \<not> w ch (length (tr @ es) + length pre) \<and>
          q (tr @ es) = (Inl (OSError ch), (tr @ es) @ pre))"
      unfolding emits_def by blast
    then show ?thesis
    proof
      assume "q (tr @ es) = (r, (tr @ es) @ fs)"
      with ok show ?thesis by (simp add: next_do_def bind_def)
    next
      assume "\<exists>pre e post ch. fs = pre @ e # post \<and> chan e = Some ch \<and>
          \<not> w ch (length (tr @ es) + length pre) \<and>
          q (tr @ es) = (Inl (OSError ch), (tr @ es) @ pre)"
      then obtain pre e post ch where f: "fs = pre @ e # post" "chan e = Some ch"
          "\<not> w ch (length (tr @ es) + length pre)"
          "q (tr @ es) = (Inl (OSError ch), (tr @ es) @ pre)"
        by blast
      have "es @ fs = (es @ pre) @ e # post" using f(1) by simp
      moreover have "\<not> w ch (length tr + length (es @ pre))"
        using f(3) by (simp add: add.assoc)
      moreover have "next_do p q tr = (Inl (OSError ch), tr @ (es @ pre))"
        using ok f(4) by (simp add: next_do_def bind_def)
      ultimately show ?thesis using f(2) by blast
    qed
  next
    assume "\<exists>pre e post ch. es = pre @ e # post \<and> chan e = Some ch \<and>
          \<not> w ch (length tr + length pre) \<and> p tr = (Inl (OSError ch), tr @ pre)"
    then obtain pre e post ch where f: "es = pre @ e # post" "chan e = Some ch"
          "\<not> w ch (length tr + length pre)" "p tr = (Inl (OSError ch), tr @ pre)"
      by blast
    have "es @ fs = pre @ e # (post @ fs)" using f(1) by simp
    moreover have "next_do p q tr = (Inl (OSError ch), tr @ pre)"
      using f(4) by (simp add: next_do_def bind_def)
    ultimately show ?thesis using f(2,3) by blast
  qed
qed

lemma emits_cons:
  "emits w p [e] (Inr ()) \<Longrightarrow> emits w q fs r \<Longrightarrow> emits w (next_do p q) (e # fs) r"
  using emits_next [of w p "[e]" q fs r] by simp

lemma emits_for_each:
  "(\<And>x. x \<in> set xs \<Longrightarrow> emits w (body x) (g x) (Inr ())) \<Longrightarrow>
   emits w (for_each xs body) (concat (map g xs)) (Inr ())"
proof (induction xs)
  case Nil
  show ?case by (simp add: emits_return)
next
  case (Cons x xs)
  have "emits w (body x) (g x) (Inr ())" using Cons.prems by simp
  moreover have "emits w (for_each xs body) (concat (map g xs)) (Inr ())"
    using Cons by simp
  ultimately show ?case by (simp add: emits_next)
qed












subsection \<open>The runs of \<open>main\<close>\<close>

lemma emits_main: "emits w (main w) script (Inl (SystemExit 42))"
  unfolding main_def script_def phase1_def phase2_def phase3_def phase4_def char_by_char_def
    range_1_6 sys_exit_def append_Cons append_assoc append_Nil
  by (intro emits_cons emits_next emits_for_each emits_print emits_write emits_flush
        emits_sleep emits_raise)


lemma emits_writable:
  assumes "streams_writable w" "emits w p es r"
  shows "p tr = (r, tr @ es)"
  using assms unfolding emits_def streams_writable_def by blast

lemma emits_char_loop:
  "emits w (for_each (chars s) (\<lambda>char.
      next_do (write_py w ch char) (next_do (flush w ch) (sleep 50))))
     (char_by_char ch s) (Inr ())"
  unfolding char_by_char_def
  by (intro emits_cons emits_for_each emits_write emits_flush emits_sleep)

lemma main_cases:
  "main w [] = (Inl (SystemExit 42), script) \<or>
   (\<exists>pre e post ch. script = pre @ e # post \<and> chan e = Some ch \<and>
      \<not> w ch (length pre) \<and> main w [] = (Inl (OSError ch), pre))"
  using emits_main [of w] unfolding emits_def
  by (drule_tac x = "[]" in spec) simp

lemma writable_main:
  assumes "streams_writable w"
  shows "main w [] = (Inl (SystemExit 42), script)"
  using main_cases [of w] assms by (auto simp: streams_writable_def)

lemma complete_run:
  assumes "complete proc"
  shows "run proc = \<lparr>status = 42, events = script\<rparr>"
  using main_cases [of "writable proc"] assms
  by (auto simp: complete_def run_def)

lemma writable_complete: "streams_writable (writable proc) \<Longrightarrow> complete proc"
  by (simp add: complete_def writable_main)

lemma complete_all_open: "complete all_open"
  by (rule writable_complete) (simp add: all_open_def streams_writable_def)

lemma run_cases:
  "run proc = \<lparr>status = 42, events = script\<rparr> \<or>
   (\<exists>e post ch. script = events (run proc) @ e # post \<and> chan e = Some ch \<and>
      \<not> writable proc ch (length (events (run proc))) \<and> status (run proc) = 1)"
proof -
  have "main (writable proc) [] = (Inl (SystemExit 42), script) \<or>
   (\<exists>pre e post ch. script = pre @ e # post \<and> chan e = Some ch \<and>
      \<not> writable proc ch (length pre) \<and>
      main (writable proc) [] = (Inl (OSError ch), pre))"
    by (rule main_cases)
  then show ?thesis
  proof
    assume "main (writable proc) [] = (Inl (SystemExit 42), script)"
    then show ?thesis by (simp add: run_def)
  next
    assume "\<exists>pre e post ch. script = pre @ e # post \<and> chan e = Some ch \<and>
      \<not> writable proc ch (length pre) \<and>
      main (writable proc) [] = (Inl (OSError ch), pre)"
    then obtain pre e post ch where f: "script = pre @ e # post" "chan e = Some ch"
      "\<not> writable proc ch (length pre)" "main (writable proc) [] = (Inl (OSError ch), pre)"
      by blast
    have "run proc = \<lparr>status = 1, events = pre\<rparr>"
      using f(4) by (simp add: run_def)
    then show ?thesis using f(1,2,3) by auto
  qed
qed

lemma status_42_complete: "status (run proc) = 42 \<Longrightarrow> complete proc"
  using main_cases [of "writable proc"]
  by (auto simp: run_def complete_def)

lemma run_prefix: "prefix (events (run proc)) script"
  using run_cases [of proc] by (auto simp: prefix_def)

lemma script_last: "script \<noteq> [] \<and> last script = Print Stdout ''Exiting with code 42''"
  by (simp add: script_def)

lemma run_nth:
  assumes "k < length (events (run p))"
  shows "events (run p) ! k = script ! k"
proof -
  obtain zs where "script = events (run p) @ zs"
    using run_prefix [of p] by (auto simp: prefix_def)
  then have "script ! k = (events (run p) @ zs) ! k" by simp
  then show ?thesis using assms by (simp add: nth_append)
qed

lemma run_length: "length (events (run p)) \<le> length script"
  using run_prefix [of p] by (rule prefix_length_le)

lemma run_stops_at_io:
  assumes "length (events (run p)) < length script"
  shows "chan (script ! length (events (run p))) \<noteq> None"
proof -
  from run_cases [of p] assms
  obtain e post ch where s: "script = events (run p) @ e # post" and c: "chan e = Some ch"
    by auto
  have "script ! length (events (run p)) = (events (run p) @ e # post) ! length (events (run p))"
    using s by simp
  then have "script ! length (events (run p)) = e" by simp
  then show ?thesis using c by simp
qed




lemma positions_from_iff:
  "k \<in> set (positions_from n e xs) \<longleftrightarrow> n \<le> k \<and> k - n < length xs \<and> xs ! (k - n) = e"
proof (induction xs arbitrary: n)
  case Nil
  show ?case by simp
next
  case (Cons x xs)
  show ?case
  proof (cases "k = n")
    case True
    then show ?thesis using Cons [of "Suc n"] by auto
  next
    case False
    then show ?thesis using Cons [of "Suc n"] by (auto simp: nth_Cons' Suc_diff_le)
  qed
qed

lemma positions_single:
  assumes "positions_from 0 e xs = [n]"
  shows "k < length xs \<and> xs ! k = e \<longleftrightarrow> k = n"
  using positions_from_iff [of k 0 e xs] assms by simp

subsection \<open>Exit status\<close>

text \<open>
  C1. A run in which both output streams take every call ends with exit status 42,
  by the \<open>SystemExit\<close> that \<open>sys.exit(42)\<close> raises, and the last effect before it is the
  line \<open>Exiting with code 42\<close> on standard output. In any run at all, exit status 42
  means that this line has been written, as the last effect of the run.
\<close>

theorem exit_status_42:
  assumes "streams_writable (writable p)"
  shows "status (run p) = 42
    \<and> main (writable p) [] = (Inl (SystemExit 42), events (run p))
    \<and> events (run p) \<noteq> []
    \<and> last (events (run p)) = Print Stdout ''Exiting with code 42''
    \<and> (status (run q) = 42 \<longrightarrow>
         events (run q) \<noteq> [] \<and> last (events (run q)) = Print Stdout ''Exiting with code 42'')"
proof -
  have "run p = \<lparr>status = 42, events = script\<rparr>"
    using assms by (simp add: complete_run writable_complete)
  moreover have "main (writable p) [] = (Inl (SystemExit 42), script)"
    using assms by (rule writable_main)
  moreover have "run q = \<lparr>status = 42, events = script\<rparr>" if "status (run q) = 42"
    using that by (simp add: complete_run status_42_complete)
  ultimately show ?thesis using script_last by auto
qed

theorem exit_status_42_witness:
  "streams_writable (writable all_open)
   \<and> status (run all_open) = 42
   \<and> last (events (run all_open)) = Print Stdout ''Exiting with code 42''"
  using exit_status_42 [of all_open all_open]
  by (simp add: all_open_def streams_writable_def)

subsection \<open>The text on each stream\<close>

lemma script_stdout:
  "emissions Stdout script = stdout_emissions" "content Stdout script = unlines stdout_lines"
  by code_simp+

lemma script_stderr:
  "emissions Stderr script = stderr_emissions" "content Stderr script = unlines stderr_lines"
  by code_simp+

text \<open>
  C2, as amended. In every complete run, the calls that write to standard output are, in
  order: the header of the first block, \<open>stdout: Line 1\<close> to \<open>stdout: Line 5\<close>, the
  header of the third block, \<open>stdout: Interleaved Line 1\<close> to \<open>stdout: Interleaved Line 5\<close>,
  the header of the fourth block, the 25 characters of \<open>stdout: Character output\<close> and
  its newline, one \<open>write\<close> each, and \<open>Exiting with code 42\<close>; the text the stream
  receives is these fifteen lines, byte for byte.
\<close>

theorem stdout_sequence:
  assumes "complete p"
  shows "emissions Stdout (events (run p)) = stdout_emissions
    \<and> content Stdout (events (run p)) = unlines stdout_lines"
  using assms by (simp add: complete_run script_stdout)

theorem stdout_sequence_witness:
  "complete all_open
   \<and> emissions Stdout (events (run all_open)) = stdout_emissions
   \<and> content Stdout (events (run all_open)) = unlines stdout_lines"
  using stdout_sequence [OF complete_all_open] complete_all_open by simp

text \<open>
  The claim as stated covers every run. When the parent has closed standard error, the
  \<open>print\<close> of the second header raises, and standard output holds the first six
  lines only.
\<close>

theorem stdout_sequence_counterexample:
  "content Stdout (events (run stderr_closed)) = unlines (take 6 stdout_lines)
   \<and> content Stdout (events (run stderr_closed)) \<noteq> unlines stdout_lines"
  by code_simp

text \<open>
  C3, as amended. In every complete run, the calls that write to standard error are, in
  order: the header of the second block, \<open>stderr: Line 1\<close> to \<open>stderr: Line 5\<close>,
  \<open>stderr: Interleaved Line 1\<close> to \<open>stderr: Interleaved Line 5\<close>, and the 25
  characters of \<open>stderr: Character output\<close> and its newline, one \<open>write\<close> each;
  the program writes nothing else to that stream.
\<close>

theorem stderr_sequence:
  assumes "complete p"
  shows "emissions Stderr (events (run p)) = stderr_emissions
    \<and> content Stderr (events (run p)) = unlines stderr_lines"
  using assms by (simp add: complete_run script_stderr)

theorem stderr_sequence_witness:
  "complete all_open
   \<and> emissions Stderr (events (run all_open)) = stderr_emissions
   \<and> content Stderr (events (run all_open)) = unlines stderr_lines"
  using stderr_sequence [OF complete_all_open] complete_all_open by simp

text \<open>
  In the run whose parent has closed standard error, that stream receives nothing.
\<close>

theorem stderr_sequence_counterexample:
  "content Stderr (events (run stderr_closed)) = []
   \<and> content Stderr (events (run stderr_closed)) \<noteq> unlines stderr_lines"
  by code_simp

subsection \<open>Line counts\<close>

lemma script_line_count:
  "line_count Stdout script = 15" "line_count Stderr script = 12"
  "last (content Stdout script) = CHR ''\<newline>''"
  "last (content Stderr script) = CHR ''\<newline>''"
  by code_simp+

text \<open>
  C9. In every complete run, standard output receives exactly 15 lines and standard
  error exactly 12, 27 in all, and the text of each stream ends with a newline.
\<close>

theorem lines_per_stream:
  assumes "complete p"
  shows "line_count Stdout (events (run p)) = 15
    \<and> line_count Stderr (events (run p)) = 12
    \<and> line_count Stdout (events (run p)) + line_count Stderr (events (run p)) = 27
    \<and> last (content Stdout (events (run p))) = CHR ''\<newline>''
    \<and> last (content Stderr (events (run p))) = CHR ''\<newline>''"
  using assms by (simp add: complete_run script_line_count)

theorem lines_per_stream_witness:
  "complete all_open
   \<and> line_count Stdout (events (run all_open)) = 15
   \<and> line_count Stderr (events (run all_open)) = 12"
  using lines_per_stream [OF complete_all_open] complete_all_open by simp

lemma script_prints: "length (filter is_print script) = 25"
  by code_simp

text \<open>
  C4, as amended. The two streams of a complete run receive 27 lines together, and a
  run in which both streams take every call shows both signs of success: exit status
  42 and these 27 lines.
\<close>

theorem total_lines_27:
  "(complete p \<longrightarrow> total_lines (events (run p)) = 27)
   \<and> (streams_writable (writable p) \<longrightarrow>
        status (run p) = 42 \<and> total_lines (events (run p)) = 27)"
proof -
  have t: "total_lines script = 27"
    by (simp add: total_lines_def script_line_count)
  have a: "total_lines (events (run p)) = 27" if "complete p"
    using that t by (simp add: complete_run)
  have b: "status (run p) = 42 \<and> total_lines (events (run p)) = 27"
    if "streams_writable (writable p)"
    using that t by (simp add: complete_run writable_complete)
  from a b show ?thesis by simp
qed

theorem total_lines_27_witness:
  "complete all_open \<and> streams_writable (writable all_open)
   \<and> status (run all_open) = 42 \<and> total_lines (events (run all_open)) = 27"
proof -
  have w: "streams_writable (writable all_open)"
    by (simp add: all_open_def streams_writable_def)
  show ?thesis using total_lines_27 [of all_open] complete_all_open w by simp
qed

text \<open>The run that completes has 27 lines, not 21, however the lines are counted.\<close>

theorem total_lines_counterexample:
  "complete all_open
   \<and> total_lines (events (run all_open)) \<noteq> 21
   \<and> length (filter is_print (events (run all_open))) \<noteq> 21"
  using complete_all_open
  by (simp add: complete_run total_lines_def script_line_count script_prints)

subsection \<open>The interleaved block\<close>

lemma script_interleaved:
  "interleaved_at script 1 23" "interleaved_at script 2 26" "interleaved_at script 3 29"
  "interleaved_at script 4 32" "interleaved_at script 5 35"
  by code_simp+

lemma script_interleaved_ex:
  assumes "i \<in> {1..5}"
  shows "\<exists>n. interleaved_at script i n"
proof -
  from assms have "i = 1 \<or> i = 2 \<or> i = 3 \<or> i = 4 \<or> i = 5" by (simp, arith)
  then show ?thesis using script_interleaved by blast
qed

text \<open>
  C5. For \<open>i\<close> from 1 to 5 and in every run: wherever the line
  \<open>stderr: Interleaved Line i\<close> is emitted, the effect just before it is the line
  \<open>stdout: Interleaved Line i\<close> and the effect just after it the pause of 100 ms; the
  stderr line of an iteration never comes before the stdout line of that iteration;
  and a complete run emits the pair.
\<close>

theorem interleaved_pairs:
  assumes "i \<in> {1..5}"
  shows "(\<forall>k<length (events (run p)).
            events (run p) ! k = Print Stderr (''stderr: Interleaved Line '' @ str_int i) \<longrightarrow>
              0 < k
            \<and> events (run p) ! (k - 1) = Print Stdout (''stdout: Interleaved Line '' @ str_int i)
            \<and> Suc k < length (events (run p))
            \<and> events (run p) ! Suc k = Sleep 100)
    \<and> (\<forall>j<length (events (run p)). \<forall>k<length (events (run p)).
            events (run p) ! j = Print Stdout (''stdout: Interleaved Line '' @ str_int i) \<longrightarrow>
            events (run p) ! k = Print Stderr (''stderr: Interleaved Line '' @ str_int i) \<longrightarrow>
            j < k)
    \<and> (complete p \<longrightarrow>
          (\<exists>k<length (events (run p)).
             events (run p) ! k = Print Stderr (''stderr: Interleaved Line '' @ str_int i)))"
proof -
  define tr where "tr = events (run p)"
  define a where "a = Print Stdout (''stdout: Interleaved Line '' @ str_int i)"
  define b where "b = Print Stderr (''stderr: Interleaved Line '' @ str_int i)"
  obtain n where "interleaved_at script i n"
    using script_interleaved_ex [OF assms] by blast
  then have pa: "positions_from 0 a script = [n]"
    and pb: "positions_from 0 b script = [Suc n]"
    and len: "Suc (Suc n) < length script"
    and sl: "script ! Suc (Suc n) = Sleep 100"
    by (simp_all add: interleaved_at_def a_def b_def)
  have a_at: "k < length script \<and> script ! k = a \<longleftrightarrow> k = n" for k
    using pa by (rule positions_single)
  have b_at: "k < length script \<and> script ! k = b \<longleftrightarrow> k = Suc n" for k
    using pb by (rule positions_single)
  have nth: "tr ! k = script ! k" if "k < length tr" for k
    using that unfolding tr_def by (rule run_nth)
  have le: "length tr \<le> length script"
    unfolding tr_def by (rule run_length)
  have only_b: "k = Suc n" if "k < length tr" "tr ! k = b" for k
    using that nth [of k] le b_at [of k] by simp
  have only_a: "j = n" if "j < length tr" "tr ! j = a" for j
    using that nth [of j] le a_at [of j] by simp
  have framed: "0 < k \<and> tr ! (k - 1) = a \<and> Suc k < length tr \<and> tr ! Suc k = Sleep 100"
    if k: "k < length tr" "tr ! k = b" for k
  proof -
    have kn: "k = Suc n" using k by (rule only_b)
    have "script ! n = a" using a_at [of n] by simp
    then have before: "tr ! (k - 1) = a" using kn k(1) nth [of n] by simp
    have more: "Suc k < length tr"
    proof (rule ccontr)
      assume "\<not> Suc k < length tr"
      then have eq: "length tr = Suc (Suc n)" using k(1) kn by simp
      then have "length (events (run p)) < length script" using len by (simp add: tr_def)
      then have "chan (script ! length (events (run p))) \<noteq> None" by (rule run_stops_at_io)
      then show False using eq sl by (simp add: tr_def)
    qed
    then have "tr ! Suc k = Sleep 100" using nth [of "Suc k"] kn sl by simp
    then show ?thesis using kn before more by simp
  qed
  have order: "j < k" if "j < length tr" "k < length tr" "tr ! j = a" "tr ! k = b" for j k
    using only_a [of j] only_b [of k] that by simp
  have present: "\<exists>k<length tr. tr ! k = b" if "complete p"
  proof -
    have "tr = script" using that by (simp add: tr_def complete_run)
    moreover have "Suc n < length script \<and> script ! Suc n = b" using b_at [of "Suc n"] by simp
    ultimately show ?thesis by blast
  qed
  show ?thesis
    using framed order present unfolding tr_def a_def b_def by blast
qed

theorem interleaved_pairs_witness:
  "(3::int) \<in> {1..5} \<and> complete all_open
   \<and> (\<exists>k<length (events (run all_open)). 0 < k
        \<and> events (run all_open) ! k = Print Stderr ''stderr: Interleaved Line 3''
        \<and> events (run all_open) ! (k - 1) = Print Stdout ''stdout: Interleaved Line 3''
        \<and> events (run all_open) ! Suc k = Sleep 100)"
proof -
  have i: "(3::int) \<in> {1..5}" by simp
  have s: "str_int 3 = ''3''" by code_simp
  show ?thesis
    using interleaved_pairs [OF i, of all_open] complete_all_open i
    unfolding s by auto
qed

subsection \<open>The fourth block, character by character\<close>

lemma flushed_tail: "flushed (e # es) \<Longrightarrow> flushed es"
  by (cases e) simp_all

lemma flushed_nth:
  "flushed es \<Longrightarrow> k < length es \<Longrightarrow> es ! k = Write ch s \<Longrightarrow>
     length s = 1 \<and> Suc k < length es \<and> es ! Suc k = Flush ch"
proof (induction es arbitrary: k)
  case Nil
  then show ?case by simp
next
  case (Cons e es)
  show ?case
  proof (cases k)
    case 0
    then have "flushed (Write ch s # es)" using Cons.prems by simp
    then show ?thesis using 0 by (auto split: list.splits event.splits)
  next
    case (Suc j)
    have "flushed es" using Cons.prems(1) by (rule flushed_tail)
    then show ?thesis using Suc Cons.prems Cons.IH [of j] by simp
  qed
qed

lemma split_at_tail: "split_at m n (e # es) \<Longrightarrow> split_at m (Suc n) es"
  by (cases e) simp_all

lemma split_at_nth:
  "split_at m n es \<Longrightarrow> k < length es \<Longrightarrow> es ! k = Write ch s \<Longrightarrow>
     (if ch = Stdout then n + k < m else m \<le> n + k)"
proof (induction es arbitrary: k n)
  case Nil
  then show ?case by simp
next
  case (Cons e es)
  show ?case
  proof (cases k)
    case 0
    then have "split_at m n (Write ch s # es)" using Cons.prems by simp
    then show ?thesis using 0 by (simp split: if_splits)
  next
    case (Suc j)
    have "split_at m (Suc n) es" using Cons.prems(1) by (rule split_at_tail)
    then show ?thesis
      using Suc Cons.prems Cons.IH [of "Suc n" j] by (simp split: if_splits)
  qed
qed

lemma script_writes:
  "filter is_write script =
     map (\<lambda>c. Write Stdout [c]) ''stdout: Character output\<newline>'' @
     map (\<lambda>c. Write Stderr [c]) ''stderr: Character output\<newline>''"
  "flushed script"
  "split_at 114 0 script"
  by code_simp+


text \<open>
  C6. Each of the two strings of the fourth block has 25 characters, the last one the
  newline. In a complete run the \<open>write\<close> calls are exactly the 25 characters of the
  first string on standard output followed by the 25 characters of the second on
  standard error, each call passes one character, and the effect right after each is
  the \<open>flush\<close> of the same stream. In every run, each \<open>write\<close> to standard output
  comes before each \<open>write\<close> to standard error.
\<close>

theorem char_by_char_output:
  "length ''stdout: Character output\<newline>'' = 25
   \<and> last ''stdout: Character output\<newline>'' = CHR ''\<newline>''
   \<and> length ''stderr: Character output\<newline>'' = 25
   \<and> last ''stderr: Character output\<newline>'' = CHR ''\<newline>''
   \<and> (complete p \<longrightarrow>
        filter is_write (events (run p)) =
          map (\<lambda>c. Write Stdout [c]) ''stdout: Character output\<newline>'' @
          map (\<lambda>c. Write Stderr [c]) ''stderr: Character output\<newline>''
      \<and> (\<forall>k<length (events (run p)). \<forall>ch s. events (run p) ! k = Write ch s \<longrightarrow>
            length s = 1 \<and> Suc k < length (events (run p))
          \<and> events (run p) ! Suc k = Flush ch))
   \<and> (\<forall>j<length (events (run p)). \<forall>k<length (events (run p)). \<forall>s t.
         events (run p) ! j = Write Stdout s \<longrightarrow> events (run p) ! k = Write Stderr t \<longrightarrow>
           j < k)"
proof -
  have whole: "filter is_write (events (run p)) =
          map (\<lambda>c. Write Stdout [c]) ''stdout: Character output\<newline>'' @
          map (\<lambda>c. Write Stderr [c]) ''stderr: Character output\<newline>''
      \<and> (\<forall>k<length (events (run p)). \<forall>ch s. events (run p) ! k = Write ch s \<longrightarrow>
            length s = 1 \<and> Suc k < length (events (run p))
          \<and> events (run p) ! Suc k = Flush ch)" if "complete p"
  proof -
    have "events (run p) = script" using that by (simp add: complete_run)
    then show ?thesis using script_writes(1) flushed_nth [OF script_writes(2)] by simp
  qed
  have order: "j < k"
    if "j < length (events (run p))" "k < length (events (run p))"
       "events (run p) ! j = Write Stdout s" "events (run p) ! k = Write Stderr t" for j k s t
  proof -
    have "j < length script" "script ! j = Write Stdout s"
      using that(1,3) run_nth [of j p] run_length [of p] by simp_all
    then have "j < 114" using split_at_nth [OF script_writes(3), of j Stdout s] by simp
    moreover have "k < length script" "script ! k = Write Stderr t"
      using that(2,4) run_nth [of k p] run_length [of p] by simp_all
    then have "114 \<le> k" using split_at_nth [OF script_writes(3), of k Stderr t] by simp
    ultimately show ?thesis by simp
  qed
  show ?thesis using whole order by simp
qed

theorem char_by_char_output_witness:
  "complete all_open
   \<and> filter is_write (events (run all_open)) =
          map (\<lambda>c. Write Stdout [c]) ''stdout: Character output\<newline>'' @
          map (\<lambda>c. Write Stderr [c]) ''stderr: Character output\<newline>''
   \<and> events (run all_open) ! 39 = Write Stdout ''s''
   \<and> events (run all_open) ! 40 = Flush Stdout
   \<and> events (run all_open) ! 114 = Write Stderr ''s''"
proof -
  have e: "events (run all_open) = script"
    using complete_all_open by (simp add: complete_run)
  have l: "(39::nat) < length script" "script ! 39 = Write Stdout ''s''" "Suc 39 = 40"
    "script ! 114 = Write Stderr ''s''"
    by code_simp+
  show ?thesis
    using char_by_char_output [of all_open] complete_all_open l unfolding e by auto
qed

subsection \<open>Character loop and whole write\<close>

lemma emits_main_whole_writes:
  "emits w (main_whole_writes w) script_whole_writes (Inl (SystemExit 42))"
  unfolding main_whole_writes_def script_whole_writes_def phase1_def phase2_def phase3_def
    range_1_6 sys_exit_def append_Cons append_assoc append_Nil
  by (intro emits_cons emits_next emits_for_each emits_print emits_write emits_flush
        emits_sleep emits_raise)

lemma content_append: "content c (xs @ ys) = content c xs @ content c ys"
  by (simp add: content_def)

lemma content_char_by_char: "content c (char_by_char ch s) = (if c = ch then s else [])"
  by (induction s) (simp_all add: content_def char_by_char_def chars_def)

lemma script_content_whole:
  "content Stdout script = content Stdout script_whole_writes"
  "content Stderr script = content Stderr script_whole_writes"
  "concat (map (write_text Stdout) script) = ''stdout: Character output\<newline>''"
  "concat (map (write_text Stderr) script) = ''stderr: Character output\<newline>''"
  by code_simp+

text \<open>
  C10. While the streams accept every call, the character loop of the fourth block
  leaves on every stream the text that one \<open>write\<close> of the whole string leaves, for any
  string and after any trace. The text of the \<open>write\<close> calls of \<open>main\<close>, concatenated,
  is \<open>stdout: Character output\<close> with its newline on standard output and
  \<open>stderr: Character output\<close> with its newline on standard error, and each stream
  receives from \<open>main\<close> the text it receives from the program that writes each string
  at once.
\<close>

theorem char_loop_is_whole_write:
  assumes "streams_writable w"
  shows "content c (snd (for_each (chars s) (\<lambda>char.
            next_do (write_py w ch char) (next_do (flush w ch) (sleep 50))) tr))
         = content c (snd (write_py w ch s tr))
    \<and> concat (map (write_text Stdout) (snd (main w []))) = ''stdout: Character output\<newline>''
    \<and> concat (map (write_text Stderr) (snd (main w []))) = ''stderr: Character output\<newline>''
    \<and> content c (snd (main w [])) = content c (snd (main_whole_writes w []))"
proof -
  have loop: "for_each (chars s) (\<lambda>char.
            next_do (write_py w ch char) (next_do (flush w ch) (sleep 50))) tr
        = (Inr (), tr @ char_by_char ch s)"
    using assms emits_char_loop by (rule emits_writable)
  have single: "write_py w ch s tr = (Inr (), tr @ [Write ch s])"
    using assms emits_write by (rule emits_writable)
  have m: "main w [] = (Inl (SystemExit 42), script)"
    using assms by (rule writable_main)
  have mw: "main_whole_writes w [] = (Inl (SystemExit 42), [] @ script_whole_writes)"
    using assms emits_main_whole_writes by (rule emits_writable)
  have "content c script = content c script_whole_writes"
    by (cases c) (simp_all add: script_content_whole)
  moreover have "content c [Write ch s] = (if c = ch then s else [])"
    by (simp add: content_def)
  ultimately show ?thesis
    using loop single m mw
    by (simp add: content_append content_char_by_char script_content_whole)
qed

theorem char_loop_is_whole_write_witness:
  "streams_writable (\<lambda>ch t. True)
   \<and> content Stdout (snd (for_each (chars ''ab\<newline>'') (\<lambda>char.
            next_do (write_py (\<lambda>ch t. True) Stdout char)
              (next_do (flush (\<lambda>ch t. True) Stdout) (sleep 50))) []))
       = content Stdout (snd (write_py (\<lambda>ch t. True) Stdout ''ab\<newline>'' []))"
proof -
  have w: "streams_writable (\<lambda>ch t. True)" by (simp add: streams_writable_def)
  show ?thesis
    using char_loop_is_whole_write [OF w, of Stdout "''ab\<newline>''" Stdout "[]"] w by simp
qed

subsection \<open>One path through the program\<close>

lemma chars_nth: "chars s = map (\<lambda>k. [s ! k]) [0..<length s]"
proof -
  have "map (\<lambda>k. [s ! k]) [0..<length s] = map (\<lambda>c. [c]) (map ((!) s) [0..<length s])"
    by simp
  then show ?thesis by (simp add: chars_def map_nth)
qed

lemma script_distinct: "distinct (filter is_print script)"
  by code_simp

lemma range_sorted: "sorted_wrt (<) (range_py 1 6)"
  by (simp add: range_1_6)

text \<open>
  C8. Every run performs an initial segment of the effects of the complete run: it
  either performs them all and exits with status 42, or stops short of them with
  status 1; no run has any other effect. The complete run goes through the first,
  second, third and fourth block in this order and ends with the final line; the loops
  of the first three blocks take the counter through 1, 2, 3, 4, 5, strictly
  increasing; a loop over a string takes its characters from index 0 upwards; and no
  line is printed twice.
\<close>

theorem monotone_progress:
  "prefix (events (run p)) (events (run all_open))
   \<and> (status (run p) = 42 \<and> events (run p) = events (run all_open)
      \<or> status (run p) = 1 \<and> strict_prefix (events (run p)) (events (run all_open)))
   \<and> events (run all_open) =
        phase1 @ phase2 @ phase3 @ phase4 @ [Print Stdout ''Exiting with code 42'']
   \<and> range_py 1 6 = [1, 2, 3, 4, 5]
   \<and> sorted_wrt (<) (range_py 1 6)
   \<and> chars s = map (\<lambda>k. [s ! k]) [0..<length s]
   \<and> distinct (filter is_print (events (run all_open)))"
proof -
  have e: "events (run all_open) = script"
    using complete_all_open by (simp add: complete_run)
  have "status (run p) = 42 \<and> events (run p) = script
      \<or> status (run p) = 1 \<and> strict_prefix (events (run p)) script"
    using run_cases [of p] by (auto simp: strict_prefix_def prefix_def)
  then show ?thesis
    unfolding e using run_prefix [of p] range_1_6 range_sorted chars_nth script_distinct
    by (simp add: script_def)
qed

theorem monotone_progress_witness:
  "status (run stderr_closed) = 1
   \<and> strict_prefix (events (run stderr_closed)) (events (run all_open))
   \<and> prefix (events (run all_open)) (events (run all_open))"
proof -
  have "status (run stderr_closed) = 1" by code_simp
  then show ?thesis
    using monotone_progress [of stderr_closed] monotone_progress [of all_open] by simp
qed

subsection \<open>Determinism\<close>









end
